theory Spec2Isabelle
  imports Complex_Main
begin

section \<open>Values exchanged with the backend and with the clients\<close>

text \<open>
  The server talks to the geofencing store through \<open>redisDo(cmd, args...)\<close>. An argument is
  a Go \<open>interface{}\<close>; the code passes strings, the \<open>float64\<close> coordinates and the integer
  constants. Coordinates are only handed on, never computed with, so \<open>real\<close> stands for
  \<open>float64\<close>.
\<close>

datatype arg = S string | F real | N int

type_synonym cmd = "string \<times> arg list"

text \<open>A reply of the wire protocol, as the client library hands it to the caller.\<close>

datatype reply = Nil | Integer int | Bulk string | Status string | Array "reply list"
  | ErrorReply string

text \<open>\<open>(interface{}, error)\<close>: \<open>Inl\<close> is the error, with its text.\<close>

type_synonym 'a res = "string + 'a"

text \<open>
  The store as the read-only queries see it: the reply it gives to each command.
\<close>

type_synonym backend = "cmd \<Rightarrow> reply res"

definition redisDo :: "backend \<Rightarrow> string \<Rightarrow> arg list \<Rightarrow> reply res" where
  "redisDo B c args = B (c, args)"

text \<open>
  What a handler does that can be observed: a payload sent on the connection with the given
  ID, a line written to the log, a command issued to the store, the pattern subscription,
  and the release of the subscription's connection.
\<close>

datatype effect = Send string string | Log string | Do cmd | PSubscribe "string list"
  | Close

text \<open>
  The connection registry \<open>srv.Conns\<close> of the websocket server: \<open>IDs\<close> enumerates the
  registered connection IDs, \<open>Get\<close> looks one up. A connection is known by its ID, and
  sending on it is the effect \<open>Send id payload\<close>.
\<close>

type_synonym conns = "string list"

definition IDs :: "conns \<Rightarrow> string list" where
  "IDs cs = cs"

definition Get :: "conns \<Rightarrow> string \<Rightarrow> bool" where
  "Get cs i = (i \<in> set cs)"

text \<open>
  The JSON library (\<open>gjson\<close>, \<open>sjson\<close>) is not part of the repository; its four entry
  points used by the server are parameters: \<open>gjson.Get(json, path).String()\<close>,
  \<open>gjson.Get(json, path).Float()\<close>, \<open>sjson.SetRaw(json, path, raw)\<close> and
  \<open>sjson.SetBytes(json, path, labels)\<close> with a list of strings, each with its error dropped
  as the callers do.
\<close>

record json =
  GetString :: "string \<Rightarrow> string \<Rightarrow> string"
  GetFloat :: "string \<Rightarrow> string \<Rightarrow> real"
  SetRaw :: "string \<Rightarrow> string \<Rightarrow> string \<Rightarrow> string"
  SetStrings :: "string \<Rightarrow> string \<Rightarrow> string list \<Rightarrow> string"

section \<open>String helpers of the Go standard library\<close>

definition HasPrefix :: "string \<Rightarrow> string \<Rightarrow> bool" where
  "HasPrefix s p = (take (length p) s = p)"

text \<open>\<open>strings.Contains(s, substr)\<close>\<close>

fun Contains :: "string \<Rightarrow> string \<Rightarrow> bool" where
  "Contains [] sub = (sub = [])"
| "Contains (c # s) sub = (HasPrefix (c # s) sub \<or> Contains s sub)"

text \<open>
  \<open>strings.Split(s, sep)\<close> for a separator of one character: the pieces between the
  separators, one more than there are separators.
\<close>

fun Split :: "string \<Rightarrow> char \<Rightarrow> string list" where
  "Split [] sep = [[]]"
| "Split (c # s) sep =
     (if c = sep then [] # Split s sep
      else (c # hd (Split s sep)) # tl (Split s sep))"

section \<open>Startup: the static places and the props map\<close>

definition dist :: int where
  "dist = 100"

definition places :: "string list" where
  "places = [''convention-center'', ''hyatt-regency'']"

type_synonym props = "string \<rightharpoonup> string"

text \<open>
  The loop of \<open>main\<close> over the places. \<open>readFile\<close> gives the contents of a fixture file
  (the read error is dropped by the code). Each round stores the properties under the place
  name, and issues the two commands that create the place and its channel.
\<close>

definition place_round :: "json \<Rightarrow> (string \<Rightarrow> string) \<Rightarrow> string \<Rightarrow> props \<times> effect list
    \<Rightarrow> props \<times> effect list" where
  "place_round J readFile place st =
     (let gj = readFile (''fences/'' @ place @ ''.geo.json'');
          pr = (fst st)(place \<mapsto> GetString J gj ''properties'')
      in (pr, snd st @
            [Do (''SET'', [S ''places'', S place, S ''OBJECT'', S gj]),
             Do (''SETCHAN'', [S (''place:'' @ place), S ''WITHIN'', S ''people'', S ''FENCE'',
                   S ''DETECT'', S ''enter,exit'', S ''OBJECT'', S gj])]))"

definition main_setup :: "json \<Rightarrow> (string \<Rightarrow> string) \<Rightarrow> props \<times> effect list" where
  "main_setup J readFile =
     (let st = fold (place_round J readFile) places (Map.empty, [])
      in (fst st, snd st @
            [Do (''SETCHAN'', [S ''roamchan'', S ''NEARBY'', S ''people'', S ''FENCE'',
                   S ''ROAM'', S ''people'', S ''*'', N dist])]))"

definition main_props :: "json \<Rightarrow> (string \<Rightarrow> string) \<Rightarrow> props" where
  "main_props J readFile = fst (main_setup J readFile)"

section \<open>The subscription relay\<close>

text \<open>
  What \<open>psc.Receive()\<close> returns: a message with its channel and data, a subscription
  notice, a pong, or an error. The flag of an error says whether it is a failure of the
  connection itself, after which the connection is unusable.
\<close>

datatype received = Message string string | Subscription | Pong | Error bool string

text \<open>How one round of a loop ends: the next round, a return from the function, a panic.\<close>

datatype ctl = Next | Return | Panic

text \<open>
  \<open>if p, ok := props[v.Channel]; ok { msg, _ = sjson.SetRaw(msg, "properties", p) }\<close>:
  the custom properties are added to the payload when the props map has the channel.
\<close>

definition decorate :: "json \<Rightarrow> props \<Rightarrow> string \<Rightarrow> string \<Rightarrow> string" where
  "decorate J pr channel data =
     (case pr channel of Some p \<Rightarrow> SetRaw J data ''properties'' p | None \<Rightarrow> data)"

text \<open>The body of the receive loop of \<open>psubscribe\<close>: the type switch on the received value.\<close>

fun receive_step :: "json \<Rightarrow> props \<Rightarrow> conns \<Rightarrow> received \<Rightarrow> ctl \<times> effect list" where
  "receive_step J pr cs (Message channel data) =
     (let msg = decorate J pr channel data
      in if Contains channel ''viewport'' then
           (let parts = Split channel CHR '':''
            in if length parts \<le> 1 then (Panic, [])
               else if Get cs (parts ! 1) then (Next, [Send (parts ! 1) msg])
               else (Next, []))
         else (Next, concat (map (\<lambda>i. if Get cs i then [Send i msg] else []) (IDs cs))))"
| "receive_step J pr cs (Error fatal e) = (Next, [Log e])"
| "receive_step J pr cs Subscription = (Next, [])"
| "receive_step J pr cs Pong = (Next, [])"

text \<open>
  The receive loop over the values that \<open>Receive\<close> returns, each with the registry as it
  is when the value arrives. When the values are used up the loop is waiting in \<open>Receive\<close>.
\<close>

datatype exit = Waiting | Returned "(conns \<times> received) list" | Crashed

fun receive_loop :: "json \<Rightarrow> props \<Rightarrow> (conns \<times> received) list \<Rightarrow> exit \<times> effect list" where
  "receive_loop J pr [] = (Waiting, [])"
| "receive_loop J pr ((cs, v) # evs) =
     (case receive_step J pr cs v of
        (Next, out) \<Rightarrow> (let r = receive_loop J pr evs in (fst r, out @ snd r))
      | (Return, out) \<Rightarrow> (Returned evs, out)
      | (Panic, out) \<Rightarrow> (Crashed, out))"

definition patterns :: "string list" where
  "patterns = [''viewport:*'', ''roamchan'', ''place:*'']"

text \<open>\<open>psubscribe\<close>: subscribe, loop; the deferred close runs when the function is left.\<close>

definition psubscribe :: "json \<Rightarrow> props \<Rightarrow> (conns \<times> received) list \<Rightarrow> exit \<times> effect list" where
  "psubscribe J pr evs =
     (let r = receive_loop J pr evs
      in (fst r, PSubscribe patterns # snd r @ (if fst r = Waiting then [] else [Close])))"

text \<open>
  The goroutine of \<open>main\<close>: \<open>for { psubscribe(props) }\<close>. The fuel bounds the number of
  calls of \<open>psubscribe\<close>; a panic ends the process.
\<close>

fun subscriber :: "nat \<Rightarrow> json \<Rightarrow> props \<Rightarrow> (conns \<times> received) list \<Rightarrow> effect list" where
  "subscriber 0 J pr evs = []"
| "subscriber (Suc n) J pr evs =
     (case psubscribe J pr evs of
        (Returned rest, out) \<Rightarrow> out @ subscriber n J pr rest
      | (Waiting, out) \<Rightarrow> out
      | (Crashed, out) \<Rightarrow> out)"

section \<open>Reply conversions of the client library\<close>

text \<open>
  The client library (\<open>redigo\<close>) is not part of the repository. Its conversions are written
  down as the library documents them. \<open>Values\<close> turns a reply into a list of replies: an
  error passes through, an array is its elements, anything else is an error.
\<close>

definition Values :: "reply res \<Rightarrow> reply list res" where
  "Values r =
     (case r of
        Inl e \<Rightarrow> Inl e
      | Inr (Array xs) \<Rightarrow> Inr xs
      | Inr Nil \<Rightarrow> Inl ''redigo: nil returned''
      | Inr (ErrorReply e) \<Rightarrow> Inl e
      | Inr _ \<Rightarrow> Inl ''redigo: unexpected type for Values'')"

text \<open>
  \<open>redis.Values(v, nil)\<close>, \<open>redis.Strings(v, nil)\<close> and \<open>redis.ByteSlices(v, nil)\<close> where
  the caller drops the error (\<open>xs, _ := ...\<close>): what is left in \<open>xs\<close>. The slice is made
  with the length of the array and filled up to the first element that does not convert;
  a reply that is no array leaves the nil slice.
\<close>

definition Values_dropped :: "reply \<Rightarrow> reply list" where
  "Values_dropped r = (case r of Array xs \<Rightarrow> xs | _ \<Rightarrow> [])"

fun strings_fill :: "reply list \<Rightarrow> string list" where
  "strings_fill [] = []"
| "strings_fill (Nil # xs) = [] # strings_fill xs"
| "strings_fill (Bulk b # xs) = b # strings_fill xs"
| "strings_fill (Status t # xs) = t # strings_fill xs"
| "strings_fill (x # xs) = replicate (Suc (length xs)) []"

definition Strings :: "reply \<Rightarrow> string list" where
  "Strings r = (case r of Array xs \<Rightarrow> strings_fill xs | _ \<Rightarrow> [])"

fun byteslices_fill :: "reply list \<Rightarrow> string list" where
  "byteslices_fill [] = []"
| "byteslices_fill (Nil # xs) = [] # byteslices_fill xs"
| "byteslices_fill (Bulk b # xs) = b # byteslices_fill xs"
| "byteslices_fill (x # xs) = replicate (Suc (length xs)) []"

definition ByteSlices :: "reply \<Rightarrow> string list" where
  "ByteSlices r = (case r of Array xs \<Rightarrow> byteslices_fill xs | _ \<Rightarrow> [])"

section \<open>The query aggregator\<close>

text \<open>
  \<open>idMap\<close>, a Go \<open>map[string][]string\<close>, as an association list with one entry for each
  key, in the order in which the keys were first stored. Reading a missing key gives the
  nil slice.
\<close>

type_synonym idmap = "(string \<times> string list) list"

definition labels :: "idmap \<Rightarrow> string \<Rightarrow> string list" where
  "labels m v = (case map_of m v of Some ls \<Rightarrow> ls | None \<Rightarrow> [])"

fun put :: "string \<Rightarrow> string list \<Rightarrow> idmap \<Rightarrow> idmap" where
  "put k ls [] = [(k, ls)]"
| "put k ls (e # m) = (if fst e = k then (k, ls) # m else e # put k ls m)"

text \<open>\<open>idMap[v] = append(idMap[v], l)\<close>\<close>

definition append_label :: "string \<Rightarrow> string \<Rightarrow> idmap \<Rightarrow> idmap" where
  "append_label l v m = put v (labels m v @ [l]) m"

text \<open>The result of the aggregator: the map, the error returned, or a panic.\<close>

datatype 'a result = Ok 'a | Failed string | Panics

text \<open>The loop over the place IDs, with the inner loop over the people of each place.\<close>

fun place_loop :: "backend \<Rightarrow> string list \<Rightarrow> idmap \<Rightarrow> idmap result" where
  "place_loop B [] m = Ok m"
| "place_loop B (placeID # rest) m =
     (case Values (redisDo B ''INTERSECTS''
                     [S ''people'', S ''IDS'', S ''GET'', S ''places'', S placeID]) of
        Inl e \<Rightarrow> Failed e
      | Inr peopleRes \<Rightarrow>
          if length peopleRes \<le> 1 then Panics
          else place_loop B rest
                 (fold (append_label placeID) (Strings (peopleRes ! 1)) m))"

definition connectedClients :: "backend \<Rightarrow> real \<Rightarrow> real \<Rightarrow> idmap result" where
  "connectedClients B x y =
     (case Values (redisDo B ''INTERSECTS''
                     [S ''places'', S ''IDS'', S ''BOUNDS'', F y, F x, F y, F x]) of
        Inl e \<Rightarrow> Failed e
      | Inr placeRes \<Rightarrow>
          (case (if length placeRes > 1 then place_loop B (Strings (placeRes ! 1)) []
                 else Ok []) of
             Failed e \<Rightarrow> Failed e
           | Panics \<Rightarrow> Panics
           | Ok idMap \<Rightarrow>
               (case Values (redisDo B ''NEARBY''
                               [S ''people'', S ''IDS'', S ''POINT'', F y, F x, N dist]) of
                  Inl e \<Rightarrow> Failed e
                | Inr nearbyRes \<Rightarrow>
                    if length nearbyRes \<le> 1 then Panics
                    else Ok (fold (append_label ''roaming'') (Strings (nearbyRes ! 1))
                               idMap))))"

section \<open>Connection lifecycle and message handlers\<close>

definition id_msg :: "string \<Rightarrow> string" where
  \<open>id_msg connID = ''{"type":"ID","id":"'' @ connID @ ''"}''\<close>

text \<open>The loop of \<open>onOpen\<close> over the scanned places: the second field of each is sent.\<close>

fun send_places :: "string \<Rightarrow> reply list \<Rightarrow> ctl \<times> effect list" where
  "send_places connID [] = (Return, [])"
| "send_places connID (p # ps) =
     (let kv = ByteSlices p
      in if length kv \<le> 1 then (Panic, [])
         else (let r = send_places connID ps in (fst r, Send connID (kv ! 1) # snd r)))"

definition onOpen :: "backend \<Rightarrow> string \<Rightarrow> ctl \<times> effect list" where
  "onOpen B connID =
     (let out = [Send connID (id_msg connID), Do (''SCAN'', [S ''places''])]
      in case Values (redisDo B ''SCAN'' [S ''places'']) of
           Inl e \<Rightarrow> (Return, out @ [Log (''onOpen: '' @ e)])
         | Inr ps \<Rightarrow>
             if length ps > 1
             then (let r = send_places connID (Values_dropped (ps ! 1))
                   in (fst r, out @ snd r))
             else (Return, out))"

text \<open>
  \<open>onClose\<close>, \<open>viewport\<close> and \<open>feature\<close> issue their commands and drop the replies, errors
  included.
\<close>

definition onClose :: "string \<Rightarrow> effect list" where
  "onClose connID =
     [Do (''DELCHAN'', [S (''viewport:'' @ connID)]),
      Do (''DEL'', [S ''people'', S connID])]"

definition viewport :: "json \<Rightarrow> string \<Rightarrow> string \<Rightarrow> effect list" where
  "viewport J connID msg =
     (let swLng = GetFloat J msg ''data._sw.lng'';
          swLat = GetFloat J msg ''data._sw.lat'';
          neLng = GetFloat J msg ''data._ne.lng'';
          neLat = GetFloat J msg ''data._ne.lat''
      in [Do (''SETCHAN'', [S (''viewport:'' @ connID), S ''INTERSECTS'', S ''people'',
                S ''FENCE'', S ''DETECT'', S ''inside'', S ''BOUNDS'',
                F swLat, F swLng, F neLat, F neLng])])"

definition feature :: "string \<Rightarrow> string \<Rightarrow> effect list" where
  "feature connID msg = [Do (''SET'', [S ''people'', S connID, S ''EX'', N 5, S ''OBJECT'', S msg])]"

text \<open>
  \<open>message\<close>: the chat handler. The map is ranged over in the order of the association
  list (Go leaves the order open). The queries of the aggregator read the store only and
  are not put in the trace.
\<close>

definition message :: "json \<Rightarrow> backend \<Rightarrow> conns \<Rightarrow> string \<Rightarrow> string \<Rightarrow> ctl \<times> effect list" where
  "message J B cs connID msg =
     (let feat = GetString J msg ''feature''
      in case connectedClients B (GetFloat J feat ''geometry.coordinates.0'')
                                 (GetFloat J feat ''geometry.coordinates.1'') of
           Failed e \<Rightarrow> (Return, [Log (''connectedClients: '' @ e)])
         | Panics \<Rightarrow> (Panic, [])
         | Ok cc \<Rightarrow>
             (Return,
              concat (map (\<lambda>e. if Get cs (fst e)
                                then [Send (fst e)
                                        (SetStrings J msg ''feature.properties.via'' (snd e))]
                                else []) cc)))"

section \<open>The store behind the commands\<close>

text \<open>
  Modelled from the spec: the geofencing store is an external service, and what its
  commands store-object, delete-object, declare-channel and delete-channel do to it is
  taken from the spec's list of wire commands. An object is kept under its collection and
  ID, a channel under its name, each with the remaining arguments of the command that made
  it. A command reaches the store only while the store can be reached. Expiry is left out.
\<close>

record store =
  objects :: "(string \<times> string) \<rightharpoonup> arg list"
  channels :: "string \<rightharpoonup> arg list"
  up :: bool

fun exec :: "cmd \<Rightarrow> store \<Rightarrow> store" where
  "exec (c, S a # S b # rest) s =
     (if \<not> up s then s
      else if c = ''SET'' then s\<lparr>objects := (objects s)((a, b) \<mapsto> rest)\<rparr>
      else if c = ''DEL'' then s\<lparr>objects := (objects s)((a, b) := None)\<rparr>
      else if c = ''SETCHAN'' then s\<lparr>channels := (channels s)(a \<mapsto> S b # rest)\<rparr>
      else if c = ''DELCHAN'' then s\<lparr>channels := (channels s)(a := None)\<rparr>
      else s)"
| "exec (c, S a # rest) s =
     (if \<not> up s then s
      else if c = ''SETCHAN'' then s\<lparr>channels := (channels s)(a \<mapsto> rest)\<rparr>
      else if c = ''DELCHAN'' then s\<lparr>channels := (channels s)(a := None)\<rparr>
      else s)"
| "exec (c, args) s = s"

text \<open>The commands of a trace, applied to the store in their order.\<close>

fun run :: "effect list \<Rightarrow> store \<Rightarrow> store" where
  "run [] s = s"
| "run (Do c # es) s = run es (exec c s)"
| "run (e # es) s = run es s"

section \<open>Observations used in the statements\<close>

text \<open>The payloads that a trace sends to one connection, in their order.\<close>

fun sent_to :: "string \<Rightarrow> effect list \<Rightarrow> string list" where
  "sent_to i [] = []"
| "sent_to i (Send j m # es) = (if j = i then m # sent_to i es else sent_to i es)"
| "sent_to i (e # es) = sent_to i es"

text \<open>A reply that carries a cursor and a list of IDs, as the ID queries of the store give.\<close>

definition ids_reply :: "reply \<Rightarrow> string list \<Rightarrow> reply res" where
  "ids_reply cursor ids = Inr (Array [cursor, Array (map Bulk ids)])"

text \<open>The three queries of the aggregator.\<close>

definition places_query :: "real \<Rightarrow> real \<Rightarrow> cmd" where
  "places_query x y = (''INTERSECTS'', [S ''places'', S ''IDS'', S ''BOUNDS'', F y, F x, F y, F x])"

definition people_query :: "string \<Rightarrow> cmd" where
  "people_query placeID = (''INTERSECTS'', [S ''people'', S ''IDS'', S ''GET'', S ''places'', S placeID])"

definition nearby_query :: "real \<Rightarrow> real \<Rightarrow> cmd" where
  "nearby_query x y = (''NEARBY'', [S ''people'', S ''IDS'', S ''POINT'', F y, F x, N dist])"

section \<open>Facts about the string helpers\<close>





lemma HasPrefix_Contains: "HasPrefix s sub \<Longrightarrow> Contains s sub"
  by (cases s) (auto simp: HasPrefix_def)


text \<open>\<open>Contains\<close> is the substring test.\<close>

lemma Contains_iff: "Contains s sub \<longleftrightarrow> (\<exists>ps ss. s = ps @ sub @ ss)"
proof (induction s)
  case Nil
  then show ?case by auto
next
  case (Cons c s)
  have pre: "HasPrefix (c # s) sub \<longleftrightarrow> (\<exists>ss. c # s = sub @ ss)"
    unfolding HasPrefix_def
    by (metis append_eq_conv_conj)
  show ?case
  proof
    assume "Contains (c # s) sub"
    then consider "HasPrefix (c # s) sub" | "Contains s sub" by auto
    then show "\<exists>ps ss. c # s = ps @ sub @ ss"
    proof cases
      case 1
      then obtain ss where "c # s = sub @ ss" using pre by blast
      then have "c # s = [] @ sub @ ss" by simp
      then show ?thesis by blast
    next
      case 2
      then obtain ps ss where "s = ps @ sub @ ss" using Cons.IH by blast
      then have "c # s = (c # ps) @ sub @ ss" by simp
      then show ?thesis by blast
    qed
  next
    assume "\<exists>ps ss. c # s = ps @ sub @ ss"
    then obtain ps ss where e: "c # s = ps @ sub @ ss" by blast
    show "Contains (c # s) sub"
    proof (cases ps)
      case Nil
      with e have "HasPrefix (c # s) sub" using pre by auto
      then show ?thesis by (rule HasPrefix_Contains)
    next
      case (Cons a qs)
      with e have "s = qs @ sub @ ss" by simp
      with Cons.IH show ?thesis by auto
    qed
  qed
qed

section \<open>Facts about the props map and the relay\<close>

text \<open>The props map that \<open>main\<close> builds has the two place names as its keys.\<close>

lemma main_props_eq:
  "main_props J rf =
     [''convention-center'' \<mapsto> GetString J (rf ''fences/convention-center.geo.json'') ''properties'',
      ''hyatt-regency'' \<mapsto> GetString J (rf ''fences/hyatt-regency.geo.json'') ''properties'']"
  by (simp add: main_props_def main_setup_def places_def place_round_def Let_def)

text \<open>No channel that the subscription patterns admit is a key of the props map.\<close>

lemma main_props_place_channel: "main_props J rf (''place:'' @ p) = None"
  by (simp add: main_props_eq)

lemma main_props_roamchan: "main_props J rf ''roamchan'' = None"
  by (simp add: main_props_eq)

lemma main_props_viewport: "main_props J rf (''viewport:'' @ p) = None"
  by (simp add: main_props_eq)

text \<open>So the decoration changes no payload that the subscription can deliver.\<close>

lemma HasPrefix_split: "HasPrefix s p \<Longrightarrow> s = p @ drop (length p) s"
  unfolding HasPrefix_def by (metis append_take_drop_id)

lemma decorate_subscribed_channel:
  assumes "channel = ''roamchan'' \<or> HasPrefix channel ''viewport:'' \<or> HasPrefix channel ''place:''"
  shows "decorate J (main_props J rf) channel data = data"
proof -
  consider "channel = ''roamchan''" | "HasPrefix channel ''viewport:''"
    | "HasPrefix channel ''place:''"
    using assms by blast
  then have "main_props J rf channel = None"
  proof cases
    case 1
    then show ?thesis by (simp only: main_props_roamchan)
  next
    case 2
    from HasPrefix_split [OF this] obtain r where "channel = ''viewport:'' @ r" by blast
    then show ?thesis by (simp only: main_props_viewport)
  next
    case 3
    from HasPrefix_split [OF this] obtain r where "channel = ''place:'' @ r" by blast
    then show ?thesis by (simp only: main_props_place_channel)
  qed
  then show ?thesis by (simp add: decorate_def)
qed

text \<open>The channels that \<open>main\<close> declares for the places and for roaming are broadcast.\<close>

lemma declared_channels_broadcast:
  "\<not> Contains ''roamchan'' ''viewport'' \<and>
   \<not> Contains ''place:convention-center'' ''viewport'' \<and>
   \<not> Contains ''place:hyatt-regency'' ''viewport''"
  by (simp add: HasPrefix_def)

lemma broadcast_sends:
  "concat (map (\<lambda>i. if Get cs i then [Send i msg] else []) (IDs cs)) = map (\<lambda>i. Send i msg) cs"
proof -
  have "map (\<lambda>i. if Get cs i then [Send i msg] else []) (IDs cs) = map (\<lambda>i. [Send i msg]) cs"
    unfolding IDs_def Get_def by (rule map_cong) auto
  then show ?thesis by simp
qed



lemma sent_to_append: "sent_to i (xs @ ys) = sent_to i xs @ sent_to i ys"
  by (induction i xs rule: sent_to.induct) auto

text \<open>No case of the type switch leaves the loop by a return.\<close>

lemma receive_step_no_Return: "fst (receive_step J pr cs v) \<noteq> Return"
  by (cases v) (auto simp: Let_def)

lemma receive_loop_not_Returned: "fst (receive_loop J pr evs) \<noteq> Returned rest"
proof (induction evs)
  case Nil
  then show ?case by simp
next
  case (Cons ev evs)
  obtain cs v where ev: "ev = (cs, v)" by (cases ev)
  obtain c out where st: "receive_step J pr cs v = (c, out)" by (cases "receive_step J pr cs v")
  have "c \<noteq> Return" using receive_step_no_Return [of J pr cs v] st by simp
  then show ?case using Cons.IH ev st by (cases c) (auto simp: Let_def)
qed

text \<open>The loop itself does not subscribe.\<close>

lemma receive_step_no_PSubscribe: "PSubscribe ps \<notin> set (snd (receive_step J pr cs v))"
  by (cases v) (auto simp: Let_def)

lemma receive_loop_no_PSubscribe: "count_list (snd (receive_loop J pr evs)) (PSubscribe ps) = 0"
proof (induction evs)
  case Nil
  then show ?case by simp
next
  case (Cons ev evs)
  obtain cs v where ev: "ev = (cs, v)" by (cases ev)
  obtain c out where st: "receive_step J pr cs v = (c, out)" by (cases "receive_step J pr cs v")
  have "PSubscribe ps \<notin> set out" using receive_step_no_PSubscribe [of ps J pr cs v] st by simp
  then have "count_list out (PSubscribe ps) = 0" by simp
  then show ?case using Cons.IH ev st by (cases c) (auto simp: Let_def)
qed

text \<open>So the first call of \<open>psubscribe\<close> is the only one, whatever the fuel.\<close>

lemma subscriber_first_call: "subscriber (Suc n) J pr evs = snd (psubscribe J pr evs)"
proof -
  obtain x out where p: "psubscribe J pr evs = (x, out)" by (cases "psubscribe J pr evs")
  have "x = fst (receive_loop J pr evs)" using p by (auto simp: psubscribe_def Let_def)
  then have "x \<noteq> Returned rest" for rest using receive_loop_not_Returned by simp
  then show ?thesis using p by (cases x) auto
qed



section \<open>The claims about the relay\<close>

text \<open>
  C1. An event on the channel of a static place should reach the clients with its
  \<open>properties\<close> set to the cached properties of the place. The props map is keyed by the
  place name (\<open>hyatt-regency\<close>), the lookup uses the channel name (\<open>place:hyatt-regency\<close>):
  the lookup misses, and the clients get the payload as it came.
\<close>

theorem place_event_not_decorated:
  "decorate J (main_props J readFile) ''place:hyatt-regency'' data = data \<and>
   decorate J (main_props J readFile) ''place:convention-center'' data = data \<and>
   receive_step J (main_props J readFile) cs (Message ''place:hyatt-regency'' data)
     = (Next, map (\<lambda>i. Send i data) cs)"
  by (simp add: decorate_def main_props_eq broadcast_sends HasPrefix_def Let_def)

text \<open>
  C2. An error is logged and the loop goes on. That holds for a failure of the connection
  too: the loop has no way out, so the subscriber that receives a fatal error first leaves
  the same trace as without it but for the log line, with no second subscription.
\<close>

theorem fatal_error_keeps_subscription:
  "receive_step J pr cs (Error True e) = (Next, [Log e]) \<and>
   fst (psubscribe J pr ((cs, Error True e) # evs)) \<noteq> Returned rest \<and>
   subscriber (Suc n) J pr ((cs, Error True e) # evs)
     = PSubscribe patterns # Log e # tl (subscriber (Suc n) J pr evs) \<and>
   count_list (subscriber (Suc n) J pr ((cs, Error True e) # evs)) (PSubscribe patterns) = 1"
proof -
  have r: "fst (psubscribe J pr ((cs, Error True e) # evs)) \<noteq> Returned rest"
    using receive_loop_not_Returned [of J pr "(cs, Error True e) # evs" rest]
    by (simp add: psubscribe_def Let_def)
  have t: "snd (psubscribe J pr ((cs, Error True e) # evs))
          = PSubscribe patterns # Log e # tl (snd (psubscribe J pr evs))"
    by (simp add: psubscribe_def Let_def)
  have c: "count_list (snd (psubscribe J pr ((cs, Error True e) # evs))) (PSubscribe patterns) = 1"
    using receive_loop_no_PSubscribe [of J pr "(cs, Error True e) # evs" patterns]
    by (simp add: psubscribe_def Let_def)
  show ?thesis
    unfolding subscriber_first_call using r t c by simp
qed







section \<open>Facts about the reply conversions and the label map\<close>

lemma strings_fill_Bulk: "strings_fill (map Bulk ids) = ids"
  by (induction ids) auto

lemma Strings_Bulk: "Strings (Array (map Bulk ids)) = ids"
  by (simp add: Strings_def strings_fill_Bulk)

lemma Values_ids_reply: "Values (ids_reply c ids) = Inr [c, Array (map Bulk ids)]"
  by (simp add: Values_def ids_reply_def)

lemma map_of_put: "map_of (put k ls m) = (map_of m)(k \<mapsto> ls)"
  by (induction m) (auto simp: fun_eq_iff)

lemma labels_put: "labels (put k ls m) v = (if v = k then ls else labels m v)"
  by (simp add: labels_def map_of_put)

lemma keys_put: "fst ` set (put k ls m) = insert k (fst ` set m)"
  by (induction m) auto

lemma distinct_put: "distinct (map fst m) \<Longrightarrow> distinct (map fst (put k ls m))"
proof (induction m)
  case Nil
  then show ?case by simp
next
  case (Cons e m)
  have "fst ` set (put k ls m) = insert k (fst ` set m)" by (rule keys_put)
  with Cons show ?case by auto
qed

lemma labels_append_label:
  "labels (append_label l v m) u = (if u = v then labels m u @ [l] else labels m u)"
  by (simp add: append_label_def labels_put)

lemma labels_fold:
  "labels (fold (append_label l) vs m) u = labels m u @ [l. w \<leftarrow> vs, w = u]"
  by (induction vs arbitrary: m) (auto simp: labels_append_label)

lemma keys_fold: "fst ` set (fold (append_label l) vs m) = fst ` set m \<union> set vs"
  by (induction vs arbitrary: m) (auto simp: append_label_def keys_put)

lemma distinct_fold:
  "distinct (map fst m) \<Longrightarrow> distinct (map fst (fold (append_label l) vs m))"
  by (induction vs arbitrary: m) (auto simp: append_label_def distinct_put)

lemma labels_key: "distinct (map fst m) \<Longrightarrow> (k, ls) \<in> set m \<Longrightarrow> labels m k = ls"
  by (simp add: labels_def)

lemma place_loop_ok:
  assumes "\<forall>p \<in> set ps. B (people_query p) = ids_reply (cur p) (inside p)"
  shows "\<exists>m'. place_loop B ps m = Ok m' \<and>
           (distinct (map fst m) \<longrightarrow> distinct (map fst m')) \<and>
           fst ` set m' = fst ` set m \<union> (\<Union>p \<in> set ps. set (inside p)) \<and>
           (\<forall>v. labels m' v = labels m v @ [p. p \<leftarrow> ps, u \<leftarrow> inside p, u = v])"
  using assms
proof (induction ps arbitrary: m)
  case Nil
  then show ?case by simp
next
  case (Cons p ps)
  let ?m1 = "fold (append_label p) (inside p) m"
  have q: "redisDo B ''INTERSECTS'' [S ''people'', S ''IDS'', S ''GET'', S ''places'', S p]
             = ids_reply (cur p) (inside p)"
    using Cons.prems by (simp add: redisDo_def people_query_def)
  have step: "place_loop B (p # ps) m = place_loop B ps ?m1"
    by (simp add: q Values_ids_reply Strings_Bulk)
  from Cons.prems have "\<forall>p \<in> set ps. B (people_query p) = ids_reply (cur p) (inside p)" by simp
  from Cons.IH [OF this, of ?m1] obtain m' where m':
    "place_loop B ps ?m1 = Ok m'"
    "distinct (map fst ?m1) \<longrightarrow> distinct (map fst m')"
    "fst ` set m' = fst ` set ?m1 \<union> (\<Union>p \<in> set ps. set (inside p))"
    "\<forall>v. labels m' v = labels ?m1 v @ [p. p \<leftarrow> ps, u \<leftarrow> inside p, u = v]"
    by blast
  have "place_loop B (p # ps) m = Ok m'" using step m'(1) by simp
  moreover have "distinct (map fst m) \<longrightarrow> distinct (map fst m')"
    using m'(2) distinct_fold by blast
  moreover have "fst ` set m' = fst ` set m \<union> (\<Union>p \<in> set (p # ps). set (inside p))"
    using m'(3) by (auto simp: keys_fold)
  moreover have "\<forall>v. labels m' v = labels m v @ [p. p \<leftarrow> p # ps, u \<leftarrow> inside p, u = v]"
    using m'(4) by (simp add: labels_fold)
  ultimately show ?case by blast
qed

lemma place_loop_distinct:
  "place_loop B ps m = Ok m' \<Longrightarrow> distinct (map fst m) \<Longrightarrow> distinct (map fst m')"
proof (induction ps arbitrary: m)
  case Nil
  then show ?case by simp
next
  case (Cons p ps)
  then show ?case
    by (auto split: sum.splits if_splits intro: distinct_fold)
qed

lemma connectedClients_distinct:
  "connectedClients B x y = Ok m \<Longrightarrow> distinct (map fst m)"
  unfolding connectedClients_def
  by (auto split: sum.splits if_splits result.splits
      dest!: place_loop_distinct intro!: distinct_fold)

section \<open>The claims about the query aggregator\<close>

text \<open>
  C3. When the three kinds of query succeed (the places at the point, the people of each
  of these places, the people near the point within \<open>dist\<close>), the aggregator returns a
  map with one entry for each person found by either kind of query. The labels of a person
  are, in this order, the ID of each matched place that lists the person, in the order of
  the places, and then \<open>roaming\<close> when the nearby query lists the person.
\<close>

theorem connectedClients_union:
  assumes "B (places_query x y) = ids_reply c0 placeIDs"
    and "\<forall>p \<in> set placeIDs. B (people_query p) = ids_reply (cur p) (inside p)"
    and "B (nearby_query x y) = ids_reply c1 near"
  shows "\<exists>m. connectedClients B x y = Ok m \<and>
           distinct (map fst m) \<and>
           fst ` set m = (\<Union>p \<in> set placeIDs. set (inside p)) \<union> set near \<and>
           (\<forall>v. labels m v = [p. p \<leftarrow> placeIDs, u \<leftarrow> inside p, u = v]
                               @ [''roaming''. u \<leftarrow> near, u = v])"
proof -
  from place_loop_ok [OF assms(2), of "[]"] obtain m1 where m1:
    "place_loop B placeIDs [] = Ok m1"
    "distinct (map fst m1)"
    "fst ` set m1 = (\<Union>p \<in> set placeIDs. set (inside p))"
    "\<forall>v. labels m1 v = [p. p \<leftarrow> placeIDs, u \<leftarrow> inside p, u = v]"
    by (auto simp: labels_def)
  let ?m = "fold (append_label ''roaming'') near m1"
  have pq: "redisDo B ''INTERSECTS'' [S ''places'', S ''IDS'', S ''BOUNDS'', F y, F x, F y, F x]
              = ids_reply c0 placeIDs"
    using assms(1) by (simp add: redisDo_def places_query_def)
  have nq: "redisDo B ''NEARBY'' [S ''people'', S ''IDS'', S ''POINT'', F y, F x, N dist]
              = ids_reply c1 near"
    using assms(3) by (simp add: redisDo_def nearby_query_def)
  have "connectedClients B x y = Ok ?m"
    unfolding connectedClients_def
    by (simp add: pq nq Values_ids_reply Strings_Bulk m1(1))
  moreover have "distinct (map fst ?m)" using m1(2) by (rule distinct_fold)
  moreover have "fst ` set ?m = (\<Union>p \<in> set placeIDs. set (inside p)) \<union> set near"
    using m1(3) by (simp add: keys_fold)
  moreover have "\<forall>v. labels ?m v = [p. p \<leftarrow> placeIDs, u \<leftarrow> inside p, u = v]
                               @ [''roaming''. u \<leftarrow> near, u = v]"
    using m1(4) by (simp add: labels_fold)
  ultimately show ?thesis by blast
qed

theorem connectedClients_union_witness:
  "\<exists>m. connectedClients
          (\<lambda>q. if q = places_query 1 2 then ids_reply (Integer 0) [''hyatt-regency'']
               else if q = people_query ''hyatt-regency'' then ids_reply (Integer 0) [''ann'', ''bob'']
               else if q = nearby_query 1 2 then ids_reply (Integer 0) [''bob'', ''cy'']
               else Inl ''ERR'') 1 2 = Ok m \<and>
        fst ` set m = {''ann'', ''bob'', ''cy''} \<and>
        labels m ''ann'' = [''hyatt-regency''] \<and>
        labels m ''bob'' = [''hyatt-regency'', ''roaming''] \<and>
        labels m ''cy'' = [''roaming''] \<and>
        labels m ''dan'' = []"
proof -
  let ?B = "\<lambda>q. if q = places_query 1 2 then ids_reply (Integer 0) [''hyatt-regency'']
               else if q = people_query ''hyatt-regency'' then ids_reply (Integer 0) [''ann'', ''bob'']
               else if q = nearby_query 1 2 then ids_reply (Integer 0) [''bob'', ''cy'']
               else Inl ''ERR''"
  have h1: "?B (places_query 1 2) = ids_reply (Integer 0) [''hyatt-regency'']" by simp
  have h2: "\<forall>p \<in> set [''hyatt-regency'']. ?B (people_query p)
              = ids_reply ((\<lambda>p. Integer 0) p) ((\<lambda>p. [''ann'', ''bob'']) p)"
    by (simp add: places_query_def people_query_def)
  have h3: "?B (nearby_query 1 2) = ids_reply (Integer 0) [''bob'', ''cy'']"
    by (simp add: places_query_def people_query_def nearby_query_def)
  from connectedClients_union [of ?B 1 2 "Integer 0" "[''hyatt-regency'']" "\<lambda>p. Integer 0"
      "\<lambda>p. [''ann'', ''bob'']" "Integer 0" "[''bob'', ''cy'']", OF h1 h2 h3]
  obtain m where m: "connectedClients ?B 1 2 = Ok m"
    "fst ` set m = (\<Union>p \<in> set [''hyatt-regency'']. set [''ann'', ''bob'']) \<union> set [''bob'', ''cy'']"
    "\<forall>v. labels m v = [p. p \<leftarrow> [''hyatt-regency''], u \<leftarrow> [''ann'', ''bob''], u = v]
                               @ [''roaming''. u \<leftarrow> [''bob'', ''cy''], u = v]"
    by blast
  have "fst ` set m = {''ann'', ''bob'', ''cy''}" using m(2) by auto
  moreover have "labels m ''ann'' = [''hyatt-regency'']" using m(3) by simp
  moreover have "labels m ''bob'' = [''hyatt-regency'', ''roaming'']" using m(3) by simp
  moreover have "labels m ''cy'' = [''roaming'']" using m(3) by simp
  moreover have "labels m ''dan'' = []" using m(3) by simp
  ultimately show ?thesis using m(1) by blast
qed

lemma place_loop_Ok_lookups:
  "place_loop B ps m = Ok m' \<Longrightarrow> \<forall>p \<in> set ps. \<exists>r. Values (B (people_query p)) = Inr r"
proof (induction ps arbitrary: m)
  case Nil
  then show ?case by simp
next
  case (Cons p ps)
  then show ?case
    by (auto simp: redisDo_def people_query_def split: sum.splits if_splits)
qed

lemma place_loop_failed:
  assumes "\<forall>q \<in> set ps. B (people_query q) = ids_reply (cur q) (inside q)"
    and "Values (B (people_query p)) = Inl e"
  shows "place_loop B (ps @ p # qs) m = Failed e"
  using assms(1)
proof (induction ps arbitrary: m)
  case Nil
  show ?case using assms(2) by (simp add: redisDo_def people_query_def)
next
  case (Cons q ps)
  have "redisDo B ''INTERSECTS'' [S ''people'', S ''IDS'', S ''GET'', S ''places'', S q]
          = ids_reply (cur q) (inside q)"
    using Cons.prems by (simp add: redisDo_def people_query_def)
  then show ?case using Cons by (simp add: Values_ids_reply Strings_Bulk)
qed

lemma redisDo_places: "redisDo B ''INTERSECTS'' [S ''places'', S ''IDS'', S ''BOUNDS'', F y, F x, F y, F x]
    = B (places_query x y)"
  by (simp add: redisDo_def places_query_def)

lemma redisDo_nearby: "redisDo B ''NEARBY'' [S ''people'', S ''IDS'', S ''POINT'', F y, F x, N dist]
    = B (nearby_query x y)"
  by (simp add: redisDo_def nearby_query_def)

lemma connectedClients_places_failed:
  "Values (B (places_query x y)) = Inl e \<Longrightarrow> connectedClients B x y = Failed e"
  by (simp add: connectedClients_def redisDo_places)

lemma connectedClients_people_failed:
  assumes "B (places_query x y) = ids_reply c0 (ps @ p # qs)"
    and "\<forall>q \<in> set ps. B (people_query q) = ids_reply (cur q) (inside q)"
    and "Values (B (people_query p)) = Inl e"
  shows "connectedClients B x y = Failed e"
  using place_loop_failed [OF assms(2,3), of qs "[]"] assms(1)
  by (simp add: connectedClients_def redisDo_places Values_ids_reply Strings_Bulk
      del: map_append)

lemma connectedClients_nearby_failed:
  assumes "B (places_query x y) = ids_reply c0 placeIDs"
    and "\<forall>p \<in> set placeIDs. B (people_query p) = ids_reply (cur p) (inside p)"
    and "Values (B (nearby_query x y)) = Inl e"
  shows "connectedClients B x y = Failed e"
proof -
  from place_loop_ok [OF assms(2), of "[]"] obtain m1 where "place_loop B placeIDs [] = Ok m1"
    by blast
  then show ?thesis using assms(1,3)
    by (simp add: connectedClients_def redisDo_places redisDo_nearby Values_ids_reply Strings_Bulk)
qed

lemma connectedClients_Ok_lookups:
  assumes "connectedClients B x y = Ok m"
  shows "\<exists>placeRes nearbyRes.
           Values (B (places_query x y)) = Inr placeRes \<and>
           Values (B (nearby_query x y)) = Inr nearbyRes \<and>
           (1 < length placeRes \<longrightarrow>
              (\<forall>p \<in> set (Strings (placeRes ! 1)). \<exists>r. Values (B (people_query p)) = Inr r))"
  using assms unfolding connectedClients_def redisDo_places redisDo_nearby
  by (auto split: sum.splits if_splits result.splits dest: place_loop_Ok_lookups)

lemma connectedClients_no_matches:
  assumes "B (places_query x y) = ids_reply c0 placeIDs"
    and "\<forall>p \<in> set placeIDs. B (people_query p) = ids_reply (cur p) []"
    and "B (nearby_query x y) = ids_reply c1 []"
  shows "connectedClients B x y = Ok []"
proof -
  from place_loop_ok [OF assms(2), of "[]"] obtain m1 where m1:
    "place_loop B placeIDs [] = Ok m1" "fst ` set m1 = {}"
    by auto
  then have "m1 = []" by simp
  with m1(1) show ?thesis using assms(1,3) Strings_Bulk [of "[]"]
    by (simp add: connectedClients_def redisDo_places redisDo_nearby Values_ids_reply Strings_Bulk)
qed

text \<open>
  C6. With no person found by any query the aggregator returns the empty map and no error.
  When the lookup of the places, the lookup of the people of a place (after lookups that
  succeeded), or the nearby lookup fails, the aggregator returns that error; and whenever a
  map is returned, every lookup that was issued had succeeded.
\<close>

theorem connectedClients_empty_or_failed:
  "(B (places_query x y) = ids_reply c0 placeIDs \<and>
    (\<forall>p \<in> set placeIDs. B (people_query p) = ids_reply (cur p) []) \<and>
    B (nearby_query x y) = ids_reply c1 []
      \<longrightarrow> connectedClients B x y = Ok []) \<and>
   (Values (B (places_query x y)) = Inl e \<longrightarrow> connectedClients B x y = Failed e) \<and>
   (B (places_query x y) = ids_reply c0 (ps @ p # qs) \<and>
    (\<forall>q \<in> set ps. B (people_query q) = ids_reply (cur q) (inside q)) \<and>
    Values (B (people_query p)) = Inl e
      \<longrightarrow> connectedClients B x y = Failed e) \<and>
   (B (places_query x y) = ids_reply c0 placeIDs \<and>
    (\<forall>p \<in> set placeIDs. B (people_query p) = ids_reply (cur p) (inside p)) \<and>
    Values (B (nearby_query x y)) = Inl e
      \<longrightarrow> connectedClients B x y = Failed e) \<and>
   (connectedClients B x y = Ok m \<longrightarrow>
      (\<exists>placeRes nearbyRes.
         Values (B (places_query x y)) = Inr placeRes \<and>
         Values (B (nearby_query x y)) = Inr nearbyRes \<and>
         (1 < length placeRes \<longrightarrow>
            (\<forall>p \<in> set (Strings (placeRes ! 1)). \<exists>r. Values (B (people_query p)) = Inr r))))"
  using connectedClients_no_matches [of B x y c0 placeIDs cur c1]
    connectedClients_places_failed [of B x y e]
    connectedClients_people_failed [of B x y c0 ps p qs cur inside e]
    connectedClients_nearby_failed [of B x y c0 placeIDs cur inside e]
    connectedClients_Ok_lookups [of B x y m]
  by blast

theorem connectedClients_empty_or_failed_witness:
  "connectedClients (\<lambda>q. ids_reply (Integer 0) []) 1 2 = Ok [] \<and>
   connectedClients (\<lambda>q. Inl ''ERR'') 1 2 = Failed ''ERR'' \<and>
   connectedClients
     (\<lambda>q. if q = places_query 1 2 then ids_reply (Integer 0) [''hyatt-regency'']
          else if q = nearby_query 1 2 then ids_reply (Integer 0) [''bob'']
          else Inl ''ERR'') 1 2 = Failed ''ERR'' \<and>
   connectedClients
     (\<lambda>q. if q = nearby_query 1 2 then Inl ''ERR''
          else ids_reply (Integer 0) []) 1 2 = Failed ''ERR''"
proof -
  have a: "connectedClients (\<lambda>q. ids_reply (Integer 0) []) 1 2 = Ok []"
    using connectedClients_empty_or_failed [of "\<lambda>q. ids_reply (Integer 0) []" 1 2
        "Integer 0" "[]" "\<lambda>p. Integer 0" "Integer 0"]
    by simp
  have b: "connectedClients (\<lambda>q. Inl ''ERR'') 1 2 = Failed ''ERR''"
    using connectedClients_empty_or_failed [of "\<lambda>q. Inl ''ERR''" 1 2 _ _ _ _ "''ERR''"]
    by (simp add: Values_def)
  let ?B = "\<lambda>q. if q = places_query 1 2 then ids_reply (Integer 0) [''hyatt-regency'']
          else if q = nearby_query 1 2 then ids_reply (Integer 0) [''bob'']
          else Inl ''ERR''"
  have c: "connectedClients ?B 1 2 = Failed ''ERR''"
    using connectedClients_empty_or_failed [of ?B 1 2 "Integer 0" _ _ _ "''ERR''"
        "[]" "''hyatt-regency''" "[]"]
    by (simp add: Values_def places_query_def people_query_def nearby_query_def)
  let ?C = "\<lambda>q. if q = nearby_query 1 2 then Inl ''ERR'' else ids_reply (Integer 0) []"
  have d: "connectedClients ?C 1 2 = Failed ''ERR''"
    using connectedClients_empty_or_failed [of ?C 1 2 "Integer 0" "[]" "\<lambda>p. Integer 0" _
        "''ERR''" _ _ _ "\<lambda>p. []"]
    by (simp add: Values_def places_query_def people_query_def nearby_query_def)
  from a b c d show ?thesis by blast
qed

section \<open>The claims about the handlers\<close>

lemma labels_Cons: "labels ((k, ls) # m) i = (if i = k then ls else labels m i)"
  by (simp add: labels_def)

lemma sent_to_recipients:
  "distinct (map fst cc) \<Longrightarrow>
   sent_to i (concat (map (\<lambda>e. if Get cs (fst e) then [Send (fst e) (f (snd e))] else []) cc))
     = (if Get cs i \<and> i \<in> fst ` set cc then [f (labels cc i)] else [])"
proof (induction cc)
  case Nil
  then show ?case by simp
next
  case (Cons e cc)
  obtain k ls where e: "e = (k, ls)" by (cases e)
  have k: "k \<notin> fst ` set cc" using Cons.prems e by auto
  show ?case
  proof (cases "i = k")
    case True
    with k have "sent_to i (concat (map (\<lambda>e. if Get cs (fst e) then [Send (fst e) (f (snd e))] else []) cc)) = []"
      using Cons by simp
    then show ?thesis using True e by (simp add: labels_Cons)
  next
    case False
    then show ?thesis using Cons e by (auto simp: labels_Cons)
  qed
qed

text \<open>
  C9. When the aggregator resolves the coordinates of the embedded geometry to the map
  \<open>cc\<close>, the chat handler sends, for each entry of \<open>cc\<close> whose ID is registered, the
  payload with the labels of the entry set as \<open>feature.properties.via\<close>. A registered
  recipient gets one message, an ID that is not registered or not resolved gets none.
\<close>

theorem message_delivery:
  assumes "connectedClients B (GetFloat J (GetString J msg ''feature'') ''geometry.coordinates.0'')
             (GetFloat J (GetString J msg ''feature'') ''geometry.coordinates.1'') = Ok cc"
  shows "message J B cs connID msg
           = (Return, [Send (fst e) (SetStrings J msg ''feature.properties.via'' (snd e)).
                         e \<leftarrow> cc, Get cs (fst e)]) \<and>
         (\<forall>i. sent_to i (snd (message J B cs connID msg))
                = (if Get cs i \<and> i \<in> fst ` set cc
                   then [SetStrings J msg ''feature.properties.via'' (labels cc i)] else []))"
proof -
  have d: "distinct (map fst cc)" using assms by (rule connectedClients_distinct)
  have m: "message J B cs connID msg
             = (Return, concat (map (\<lambda>e. if Get cs (fst e)
                   then [Send (fst e) (SetStrings J msg ''feature.properties.via'' (snd e))]
                   else []) cc))"
    using assms by (simp add: message_def Let_def)
  show ?thesis
    unfolding m using sent_to_recipients [OF d, of _ cs "SetStrings J msg ''feature.properties.via''"]
    by simp
qed

text \<open>
  C10. The chat handler does not leave the sender out: when the ID of the sender is a key
  of the resolved map and the sender is registered, the sender is sent its own message,
  with its labels, once.
\<close>

theorem message_reaches_sender:
  assumes "connectedClients B (GetFloat J (GetString J msg ''feature'') ''geometry.coordinates.0'')
             (GetFloat J (GetString J msg ''feature'') ''geometry.coordinates.1'') = Ok cc"
    and "connID \<in> fst ` set cc" and "Get cs connID"
  shows "sent_to connID (snd (message J B cs connID msg))
           = [SetStrings J msg ''feature.properties.via'' (labels cc connID)]"
proof -
  have d: "distinct (map fst cc)" using assms(1) by (rule connectedClients_distinct)
  have m: "snd (message J B cs connID msg)
             = concat (map (\<lambda>e. if Get cs (fst e)
                   then [Send (fst e) (SetStrings J msg ''feature.properties.via'' (snd e))]
                   else []) cc)"
    using assms(1) by (simp add: message_def Let_def)
  show ?thesis
    unfolding m using sent_to_recipients [OF d, of connID cs] assms(2,3) by simp
qed

text \<open>A resolution at a sample store, used below.\<close>

lemma example_resolution:
  "connectedClients
     (\<lambda>q. if q = places_query 1 2 then ids_reply (Integer 0) [''hyatt-regency'']
          else if q = people_query ''hyatt-regency'' then ids_reply (Integer 0) [''ann'', ''bob'']
          else if q = nearby_query 1 2 then ids_reply (Integer 0) [''bob'', ''cy'']
          else Inl ''ERR'') 1 2
   = Ok [(''ann'', [''hyatt-regency'']), (''bob'', [''hyatt-regency'', ''roaming'']),
         (''cy'', [''roaming''])]"
  by (simp add: connectedClients_def redisDo_def places_query_def people_query_def
      nearby_query_def ids_reply_def Values_def Strings_def append_label_def labels_def dist_def)

theorem message_delivery_witness:
  "message \<lparr>GetString = (\<lambda>j p. j),
            GetFloat = (\<lambda>j p. if p = ''geometry.coordinates.0'' then 1 else 2),
            SetRaw = (\<lambda>j p v. v), SetStrings = (\<lambda>j p ls. j @ concat ls)\<rparr>
     (\<lambda>q. if q = places_query 1 2 then ids_reply (Integer 0) [''hyatt-regency'']
          else if q = people_query ''hyatt-regency'' then ids_reply (Integer 0) [''ann'', ''bob'']
          else if q = nearby_query 1 2 then ids_reply (Integer 0) [''bob'', ''cy'']
          else Inl ''ERR'')
     [''bob'', ''cy'', ''zed''] ''zed'' ''hi:''
   = (Return, [Send ''bob'' ''hi:hyatt-regencyroaming'', Send ''cy'' ''hi:roaming''])"
  using message_delivery [of
      "\<lambda>q. if q = places_query 1 2 then ids_reply (Integer 0) [''hyatt-regency'']
          else if q = people_query ''hyatt-regency'' then ids_reply (Integer 0) [''ann'', ''bob'']
          else if q = nearby_query 1 2 then ids_reply (Integer 0) [''bob'', ''cy'']
          else Inl ''ERR''"
      "\<lparr>GetString = (\<lambda>j p. j),
        GetFloat = (\<lambda>j p. if p = ''geometry.coordinates.0'' then 1 else 2),
        SetRaw = (\<lambda>j p v. v), SetStrings = (\<lambda>j p ls. j @ concat ls)\<rparr>"
      "''hi:''"
      "[(''ann'', [''hyatt-regency'']), (''bob'', [''hyatt-regency'', ''roaming'']),
         (''cy'', [''roaming''])]"
      "[''bob'', ''cy'', ''zed'']" "''zed''"]
    example_resolution
  by (simp add: Get_def)

theorem message_reaches_sender_witness:
  "sent_to ''bob''
     (snd (message \<lparr>GetString = (\<lambda>j p. j),
            GetFloat = (\<lambda>j p. if p = ''geometry.coordinates.0'' then 1 else 2),
            SetRaw = (\<lambda>j p v. v), SetStrings = (\<lambda>j p ls. j @ concat ls)\<rparr>
     (\<lambda>q. if q = places_query 1 2 then ids_reply (Integer 0) [''hyatt-regency'']
          else if q = people_query ''hyatt-regency'' then ids_reply (Integer 0) [''ann'', ''bob'']
          else if q = nearby_query 1 2 then ids_reply (Integer 0) [''bob'', ''cy'']
          else Inl ''ERR'')
     [''bob'', ''cy'', ''zed''] ''bob'' ''hi:''))
   = [''hi:hyatt-regencyroaming'']"
  using message_reaches_sender [of
      "\<lambda>q. if q = places_query 1 2 then ids_reply (Integer 0) [''hyatt-regency'']
          else if q = people_query ''hyatt-regency'' then ids_reply (Integer 0) [''ann'', ''bob'']
          else if q = nearby_query 1 2 then ids_reply (Integer 0) [''bob'', ''cy'']
          else Inl ''ERR''"
      "\<lparr>GetString = (\<lambda>j p. j),
        GetFloat = (\<lambda>j p. if p = ''geometry.coordinates.0'' then 1 else 2),
        SetRaw = (\<lambda>j p v. v), SetStrings = (\<lambda>j p ls. j @ concat ls)\<rparr>"
      "''hi:''"
      "[(''ann'', [''hyatt-regency'']), (''bob'', [''hyatt-regency'', ''roaming'']),
         (''cy'', [''roaming''])]"
      "''bob''" "[''bob'', ''cy'', ''zed'']"]
    example_resolution
  by (simp add: Get_def labels_def)

lemma onClose_run:
  "up s \<Longrightarrow> run (onClose c) s
     = s\<lparr>channels := (channels s)(''viewport:'' @ c := None),
         objects := (objects s)((''people'', c) := None)\<rparr>"
  by (simp add: onClose_def)

text \<open>
  C7. While the store can be reached, the teardown leaves no person record and no viewport
  channel of the connection, a second teardown changes nothing, and a teardown when
  neither exists changes nothing. The teardown has no error to report: the replies of its
  two commands are dropped.
\<close>

theorem onClose_idempotent:
  assumes "up s"
  shows "objects (run (onClose c) s) (''people'', c) = None \<and>
         channels (run (onClose c) s) (''viewport:'' @ c) = None \<and>
         run (onClose c) (run (onClose c) s) = run (onClose c) s \<and>
         (objects s (''people'', c) = None \<and> channels s (''viewport:'' @ c) = None
            \<longrightarrow> run (onClose c) s = s)"
proof -
  let ?t = "run (onClose c) s"
  have t: "?t = s\<lparr>channels := (channels s)(''viewport:'' @ c := None),
                    objects := (objects s)((''people'', c) := None)\<rparr>"
    using assms by (rule onClose_run)
  have u: "up ?t" by (simp add: t assms)
  have "run (onClose c) ?t
          = ?t\<lparr>channels := (channels ?t)(''viewport:'' @ c := None),
               objects := (objects ?t)((''people'', c) := None)\<rparr>"
    using u by (rule onClose_run)
  also have "\<dots> = ?t" by (simp add: t)
  finally have twice: "run (onClose c) ?t = ?t" .
  have absent: "?t = s"
    if "objects s (''people'', c) = None" "channels s (''viewport:'' @ c) = None"
    using that by (simp add: t fun_upd_idem)
  show ?thesis using twice absent by (simp add: t)
qed

theorem onClose_idempotent_witness:
  "objects (run (onClose ''b2'') (run (feature ''b2'' ''{}'')
       \<lparr>objects = Map.empty, channels = Map.empty, up = True\<rparr>)) (''people'', ''b2'') = None \<and>
   run (onClose ''b2'') (run (onClose ''b2'') (run (feature ''b2'' ''{}'')
       \<lparr>objects = Map.empty, channels = Map.empty, up = True\<rparr>))
     = \<lparr>objects = Map.empty, channels = Map.empty, up = True\<rparr> \<and>
   run (onClose ''b2'') \<lparr>objects = Map.empty, channels = Map.empty, up = True\<rparr>
     = \<lparr>objects = Map.empty, channels = Map.empty, up = True\<rparr>"
  using onClose_idempotent [of "run (feature ''b2'' ''{}'')
       \<lparr>objects = Map.empty, channels = Map.empty, up = True\<rparr>" "''b2''"]
    onClose_idempotent [of "\<lparr>objects = Map.empty, channels = Map.empty, up = True\<rparr>" "''b2''"]
  by (simp add: feature_def onClose_def)

lemma byteslices_pair: "ByteSlices (Array [Bulk i, Bulk obj]) = [i, obj]"
  by (simp add: ByteSlices_def)

lemma send_places_pairs:
  "send_places connID (map (\<lambda>r. Array [Bulk (fst r), Bulk (snd r)]) regions)
     = (Return, map (\<lambda>r. Send connID (snd r)) regions)"
  by (induction regions) (auto simp: byteslices_pair Let_def)

text \<open>
  C8. The first thing \<open>onOpen\<close> does is to send the connection its ID in the identity
  message. When the scan of the places succeeds, the objects of the places follow, one
  send for each place, in the order of the scan.
\<close>

theorem onOpen_id_then_places:
  \<open>(\<exists>rest. snd (onOpen B connID)
            = Send connID (''{"type":"ID","id":"'' @ connID @ ''"}'') # rest) \<and>
   (B (''SCAN'', [S ''places''])
      = Inr (Array [cursor, Array (map (\<lambda>r. Array [Bulk (fst r), Bulk (snd r)]) regions)])
    \<longrightarrow> onOpen B connID
          = (Return, Send connID (''{"type":"ID","id":"'' @ connID @ ''"}'')
                     # Do (''SCAN'', [S ''places''])
                     # map (\<lambda>r. Send connID (snd r)) regions))\<close>
proof -
  have "\<exists>rest. snd (onOpen B connID) = Send connID (id_msg connID) # rest"
    by (simp add: onOpen_def Let_def split: sum.splits)
  moreover have "onOpen B connID
          = (Return, Send connID (id_msg connID) # Do (''SCAN'', [S ''places''])
                     # map (\<lambda>r. Send connID (snd r)) regions)"
    if "B (''SCAN'', [S ''places''])
      = Inr (Array [cursor, Array (map (\<lambda>r. Array [Bulk (fst r), Bulk (snd r)]) regions)])"
    using that
    by (simp add: onOpen_def Let_def redisDo_def Values_def Values_dropped_def send_places_pairs)
  ultimately show ?thesis by (simp add: id_msg_def)
qed

theorem onOpen_id_then_places_witness:
  \<open>onOpen (\<lambda>q. Inr (Array [Integer 0, Array [Array [Bulk ''convention-center'', Bulk ''{cc}''],
                                               Array [Bulk ''hyatt-regency'', Bulk ''{hr}'']]]))
      ''b2''
   = (Return, [Send ''b2'' ''{"type":"ID","id":"b2"}'', Do (''SCAN'', [S ''places'']),
               Send ''b2'' ''{cc}'', Send ''b2'' ''{hr}''])\<close>
  using onOpen_id_then_places [of
      "\<lambda>q. Inr (Array [Integer 0, Array [Array [Bulk ''convention-center'', Bulk ''{cc}''],
                                               Array [Bulk ''hyatt-regency'', Bulk ''{hr}'']]])"
      "''b2''" "Integer 0" "[(''convention-center'', ''{cc}''), (''hyatt-regency'', ''{hr}'')]"]
  by simp

end
